theory Spec2Isabelle
  imports Complex_Main "HOL-Library.Char_ord" "HOL-Library.List_Lexorder"
    "HOL-Library.Product_Lexorder"
begin

section \<open>Errors and results\<close>

text \<open>
  The Python exceptions that the embedded functions can raise. A function that can raise
  returns \<open>py_error + 'a\<close>, with \<open>Inl\<close> for the exception.
\<close>

datatype py_error = ValueError | KeyError | IntegrityError | TypeError

text \<open>A list comprehension whose element expression can raise stops at the first exception.\<close>

fun collect :: "(py_error + 'a) list \<Rightarrow> py_error + 'a list" where
  "collect [] = Inr []"
| "collect (x # xs) =
     (case x of
        Inl e \<Rightarrow> Inl e
      | Inr v \<Rightarrow> (case collect xs of Inl e \<Rightarrow> Inl e | Inr vs \<Rightarrow> Inr (v # vs)))"

section \<open>models.py: the Tag dataclass\<close>

text \<open>
  Floats are idealised as reals; Python's \<open>None\<close> (SQL \<open>NULL\<close>) is \<open>None\<close>.
\<close>

record Tag =
  tag_id :: string
  type :: string
  true_x :: "real option"
  true_y :: "real option"
  pred_x :: "real option"
  pred_y :: "real option"
  is_read :: bool

text \<open>
  \<open>Tag.__post_init__\<close> runs at the end of every construction \<open>Tag(...)\<close>: the
  constructor returns the object unless one of the two checks raises \<open>ValueError\<close>.
\<close>

definition Tag_post_init :: "Tag \<Rightarrow> py_error + Tag" where
  "Tag_post_init self =
     (if type self \<notin> {''ref'', ''tar''} then Inl ValueError
      else if type self = ''ref'' \<and> (pred_x self \<noteq> None \<or> pred_y self \<noteq> None)
        then Inl ValueError
      else Inr self)"

section \<open>db.py: the tag table\<close>

text \<open>
  A row of table \<open>tag\<close>; \<open>is_read\<close> is stored as an integer. The table is the list of
  its rows in rowid order.
\<close>

record tag_row =
  r_tag_id :: string
  r_type :: string
  r_true_x :: "real option"
  r_true_y :: "real option"
  r_pred_x :: "real option"
  r_pred_y :: "real option"
  r_is_read :: int

text \<open>
  The two \<open>CHECK\<close> constraints of the schema: the column constraint on \<open>type\<close> and the
  table constraint on the predicted coordinates.
\<close>

definition schema_check :: "tag_row \<Rightarrow> bool" where
  "schema_check r \<longleftrightarrow>
     r_type r \<in> {''ref'', ''tar''} \<and>
     ((r_type r = ''ref'' \<and> r_pred_x r = None \<and> r_pred_y r = None) \<or> r_type r = ''tar'')"

section \<open>repository.py: tag CRUD\<close>

definition row_of_Tag :: "Tag \<Rightarrow> tag_row" where
  "row_of_Tag tag =
     \<lparr>r_tag_id = tag_id tag, r_type = type tag, r_true_x = true_x tag, r_true_y = true_y tag,
      r_pred_x = pred_x tag, r_pred_y = pred_y tag,
      r_is_read = (if is_read tag then 1 else 0)\<rparr>"

text \<open>\<open>Tag(tag_id=r["tag_id"], ..., is_read=bool(r["is_read"]))\<close>, as the readers build it.\<close>

definition Tag_of_row :: "tag_row \<Rightarrow> py_error + Tag" where
  "Tag_of_row r =
     Tag_post_init
       \<lparr>tag_id = r_tag_id r, type = r_type r, true_x = r_true_x r, true_y = r_true_y r,
        pred_x = r_pred_x r, pred_y = r_pred_y r, is_read = (r_is_read r \<noteq> 0)\<rparr>"

text \<open>
  \<open>INSERT OR REPLACE\<close>: a row with the same primary key is deleted and the new row is
  added; a \<open>CHECK\<close> violation aborts the statement with \<open>IntegrityError\<close>.
\<close>

definition insert_tag :: "tag_row list \<Rightarrow> Tag \<Rightarrow> py_error + tag_row list" where
  "insert_tag conn tag =
     (let r = row_of_Tag tag in
      if \<not> schema_check r then Inl IntegrityError
      else Inr (filter (\<lambda>q. r_tag_id q \<noteq> r_tag_id r) conn @ [r]))"

text \<open>
  \<open>UPDATE tag SET ... WHERE tag_id = ?\<close>: every matching row takes the new values; the
  statement aborts if a changed row violates a \<open>CHECK\<close>.
\<close>

definition update_tag :: "tag_row list \<Rightarrow> Tag \<Rightarrow> py_error + tag_row list" where
  "update_tag conn tag =
     (let r = row_of_Tag tag in
      if (\<exists>q \<in> set conn. r_tag_id q = r_tag_id r) \<and> \<not> schema_check r then Inl IntegrityError
      else Inr (map (\<lambda>q. if r_tag_id q = r_tag_id r then r else q) conn))"

definition get_tag_by_id :: "tag_row list \<Rightarrow> string \<Rightarrow> py_error + Tag option" where
  "get_tag_by_id conn tid =
     (case filter (\<lambda>q. r_tag_id q = tid) conn of
        [] \<Rightarrow> Inr None
      | row # _ \<Rightarrow> (case Tag_of_row row of Inl e \<Rightarrow> Inl e | Inr t \<Rightarrow> Inr (Some t)))"

definition list_tags :: "tag_row list \<Rightarrow> string option \<Rightarrow> py_error + Tag list" where
  "list_tags conn tag_type =
     (let selected = (if tag_type \<in> {Some ''ref'', Some ''tar''}
                      then filter (\<lambda>q. Some (r_type q) = tag_type) conn
                      else conn)
      in collect (map Tag_of_row selected))"

text \<open>The tag that a stored row denotes, with no check.\<close>

definition as_Tag :: "tag_row \<Rightarrow> Tag" where
  "as_Tag r =
     \<lparr>tag_id = r_tag_id r, type = r_type r, true_x = r_true_x r, true_y = r_true_y r,
      pred_x = r_pred_x r, pred_y = r_pred_y r, is_read = (r_is_read r \<noteq> 0)\<rparr>"

section \<open>services/positioning.py: data frames\<close>

text \<open>
  A cell of a numeric column is a float or NaN (\<open>None\<close>). A row of the frame \<open>dbase\<close>
  holds the tag id, the timestamp \<open>read\<close>, the cells of the columns
  \<open>rssi_antenna...\<close> and \<open>rc_antenna...\<close> in the frame's column order, and the tag's true
  coordinates. The frame records the suffix of each antenna column's name.
\<close>

type_synonym cell = "real option"

record fp_row =
  TagID :: string
  read :: int
  rssi :: "cell list"
  rc :: "cell list"
  row_true_x :: cell
  row_true_y :: cell

record frame =
  rssi_names :: "string list"
  rc_names :: "string list"
  rows :: "fp_row list"

text \<open>The four statistic blocks, one cell per base column.\<close>

record stats =
  s_avg :: "cell list"
  s_min :: "cell list"
  s_max :: "cell list"
  s_stddev :: "cell list"

text \<open>A row of the feature frame: the row of \<open>dbase\<close> and its statistic columns.\<close>

record feat_row =
  base :: fp_row
  avg_cols :: "cell list"
  min_cols :: "cell list"
  max_cols :: "cell list"
  stddev_cols :: "cell list"

text \<open>
  A row of table \<open>record\<close>; \<open>read_time\<close> is the instant in microseconds. The writers
  \<open>insert_record\<close> and \<open>insert_records\<close> store it as the text
  \<open>read_time.isoformat(sep=' ')\<close> of a naive datetime.
\<close>

record record_row =
  rec_tag_id :: string
  rec_antenna_id :: string
  rec_rc :: int
  rec_rssi :: real
  rec_read_time :: int

section \<open>numpy and pandas primitives\<close>

text \<open>\<open>np.mean\<close>, \<open>np.min\<close>, \<open>np.max\<close> and \<open>np.std\<close> (population) of a non-empty column.\<close>

definition np_mean :: "real list \<Rightarrow> real" where
  "np_mean xs = sum_list xs / of_nat (length xs)"

definition np_min :: "real list \<Rightarrow> real" where
  "np_min xs = fold min (tl xs) (hd xs)"

definition np_max :: "real list \<Rightarrow> real" where
  "np_max xs = fold max (tl xs) (hd xs)"

definition np_std :: "real list \<Rightarrow> real" where
  "np_std xs = sqrt (np_mean (map (\<lambda>x. (x - np_mean xs)\<^sup>2) xs))"

text \<open>\<open>np.rint\<close> rounds to the nearest integer, a tie to the even one.\<close>

definition rint :: "real \<Rightarrow> int" where
  "rint x =
     (let f = \<lfloor>x\<rfloor>; d = x - of_int f
      in if d < 1 / 2 then f else if 1 / 2 < d then f + 1 else if even f then f else f + 1)"

text \<open>
  Python's \<open>round(x, 4)\<close>: the nearest multiple of 1/10000, a tie to the even one.
\<close>

definition around4 :: "real \<Rightarrow> real" where
  "around4 x = of_int (rint (x * 10000)) / 10000"

text \<open>
  A reduction along axis 0 followed by \<open>np.around(..., 4)\<close>: NaN in the column makes the
  result NaN. numpy scales by 10000 in floating point before it rounds, which reals do not
  reproduce, so the function \<open>x \<mapsto> np.around(x, 4)\<close> is the parameter \<open>around\<close> of the
  model, and the properties are proved for every such function. The examples take
  \<open>around4\<close> for it, with which \<open>np.around(x, 4)\<close> agrees on their values (integers, and 1/3,
  whose scaled value is not near a tie).
\<close>

definition col_stat :: "(real \<Rightarrow> real) \<Rightarrow> (real list \<Rightarrow> real) \<Rightarrow> cell list \<Rightarrow> cell" where
  "col_stat around func col =
     (if None \<in> set col then None else Some (around (func (map the col))))"

definition columns :: "cell list list \<Rightarrow> cell list list" where
  "columns window = map (\<lambda>j. map (\<lambda>r. r ! j) window) [0..<length (hd window)]"

text \<open>
  The dictionary \<open>stats\<close> of lines 87-88 and 96-97; \<open>np.min\<close> of a window with no rows
  raises \<open>ValueError\<close>.
\<close>

definition window_stats :: "(real \<Rightarrow> real) \<Rightarrow> cell list list \<Rightarrow> py_error + stats" where
  "window_stats around window =
     (if window = [] then Inl ValueError
      else Inr \<lparr>s_avg = map (col_stat around np_mean) (columns window),
                s_min = map (col_stat around np_min) (columns window),
                s_max = map (col_stat around np_max) (columns window),
                s_stddev = map (col_stat around np_std) (columns window)\<rparr>)"

text \<open>\<open>range(a, b)\<close>.\<close>

definition py_range :: "int \<Rightarrow> int \<Rightarrow> int list" where
  "py_range a b = [a..b - 1]"

text \<open>\<open>df.loc[a:b]\<close> on the index 0, 1, ...: the rows labelled \<open>a\<close> to \<open>b\<close>, both included (\<open>0 \<le> a\<close>).\<close>

definition loc_slice :: "'a list \<Rightarrow> int \<Rightarrow> int \<Rightarrow> 'a list" where
  "loc_slice df a b = take (nat (b + 1 - a)) (drop (nat a) df)"

text \<open>\<open>str(n)\<close>.\<close>

fun str_nat :: "nat \<Rightarrow> string" where
  "str_nat n =
     (if n < 10 then [''0123456789'' ! n]
      else str_nat (n div 10) @ [''0123456789'' ! (n mod 10)])"

declare str_nat.simps [simp del]

text \<open>The position of a column label, \<open>None\<close> when the frame has no such column.\<close>

fun col_index :: "string list \<Rightarrow> string \<Rightarrow> nat option" where
  "col_index [] l = None"
| "col_index (c # cs) l = (if c = l then Some 0 else map_option Suc (col_index cs l))"

text \<open>Selecting columns by label raises \<open>KeyError\<close> for a missing label.\<close>

definition resolve :: "string list \<Rightarrow> string list \<Rightarrow> py_error + nat list" where
  "resolve names labels =
     collect (map (\<lambda>l. case col_index names l of None \<Rightarrow> Inl KeyError | Some i \<Rightarrow> Inr i) labels)"

text \<open>\<open>np.unique\<close>: the distinct values, sorted.\<close>

definition np_unique :: "string list \<Rightarrow> string list" where
  "np_unique xs = sort (remdups xs)"

text \<open>A \<open>for\<close> loop over a list whose body can raise.\<close>

fun for_loop :: "'i list \<Rightarrow> ('i \<Rightarrow> 's \<Rightarrow> py_error + 's) \<Rightarrow> 's \<Rightarrow> py_error + 's" where
  "for_loop [] body s = Inr s"
| "for_loop (i # is) body s =
     (case body i s of Inl e \<Rightarrow> Inl e | Inr s' \<Rightarrow> for_loop is body s')"

section \<open>services/positioning.py: load_data_from_db\<close>

text \<open>
  \<open>pivot_table\<close> with its default aggregation (the mean): the index is the sorted distinct
  (tag, time) pairs, the columns are the sorted distinct antenna ids, and a cell is the mean
  of the values of the readings with that tag, time and antenna, or NaN when there is none.
\<close>

definition pivot_index :: "record_row list \<Rightarrow> (string \<times> int) list" where
  "pivot_index recs = sort (remdups (map (\<lambda>q. (rec_tag_id q, rec_read_time q)) recs))"

definition pivot_columns :: "record_row list \<Rightarrow> string list" where
  "pivot_columns recs = sort (remdups (map rec_antenna_id recs))"

definition pivot_cell :: "(record_row \<Rightarrow> real) \<Rightarrow> record_row list \<Rightarrow> string \<times> int \<Rightarrow> string \<Rightarrow> cell" where
  "pivot_cell val recs k a =
     (let vs = map val (filter (\<lambda>q. (rec_tag_id q, rec_read_time q) = k \<and> rec_antenna_id q = a) recs)
      in if vs = [] then None else Some (np_mean vs))"

text \<open>
  The left merge with the tag table on \<open>TagID\<close>: a row of the left frame appears once for
  every tag row with its id, and once with NaN coordinates when there is none.
\<close>

definition merge_left :: "fp_row list \<Rightarrow> tag_row list \<Rightarrow> fp_row list" where
  "merge_left df_base df_tags =
     concat (map (\<lambda>b. case filter (\<lambda>t. r_tag_id t = TagID b) df_tags of
                         [] \<Rightarrow> [b]
                       | ms \<Rightarrow> map (\<lambda>t. b\<lparr>row_true_x := r_true_x t, row_true_y := r_true_y t\<rparr>) ms)
                 df_base)"

text \<open>
  \<open>isoformat\<close> writes the fraction of the second only when the microsecond is not 0, so
  the stored text has one of two layouts.
\<close>

definition has_fraction :: "int \<Rightarrow> bool" where
  "has_fraction t \<longleftrightarrow> t mod 1000000 \<noteq> 0"

text \<open>
  \<open>read_sql_query\<close> with \<open>parse_dates\<close> (pandas 2): the layout is taken from the first
  row, and a text of the other layout becomes NaT (\<open>None\<close>).
\<close>

definition parsed_time :: "record_row list \<Rightarrow> record_row \<Rightarrow> int option" where
  "parsed_time df_records q =
     (case df_records of
        [] \<Rightarrow> None
      | q0 # _ \<Rightarrow>
          if has_fraction (rec_read_time q) = has_fraction (rec_read_time q0)
          then Some (rec_read_time q) else None)"

text \<open>
  The whole function. \<open>pivot_table\<close> leaves out the readings whose \<open>read_time\<close> is NaT.
\<close>

definition load_data_from_db :: "tag_row list \<Rightarrow> record_row list \<Rightarrow> frame" where
  "load_data_from_db tag_table record_table =
     (let df_records = filter (\<lambda>q. parsed_time record_table q \<noteq> None) record_table;
          ants = pivot_columns df_records;
          df_base = map (\<lambda>k. \<lparr>TagID = fst k, read = snd k,
                               rssi = map (pivot_cell rec_rssi df_records k) ants,
                               rc = map (pivot_cell (\<lambda>q. of_int (rec_rc q)) df_records k) ants,
                               row_true_x = None, row_true_y = None\<rparr>)
                      (pivot_index df_records)
      in \<lparr>rssi_names = ants, rc_names = ants, rows = merge_left df_base tag_table\<rparr>)"

section \<open>services/positioning.py: sliding_window_features\<close>

text \<open>The four assignments \<open>df_tag.loc[i, [prefix_c ...]] = stats[prefix]\<close> to one row.\<close>

definition set_stats :: "stats \<Rightarrow> feat_row \<Rightarrow> feat_row" where
  "set_stats st r =
     r\<lparr>avg_cols := s_avg st, min_cols := s_min st, max_cols := s_max st,
       stddev_cols := s_stddev st\<rparr>"

text \<open>A row before any assignment: a new column is NaN in the rows not assigned yet.\<close>

definition nan_row :: "nat \<Rightarrow> fp_row \<Rightarrow> feat_row" where
  "nan_row c r =
     \<lparr>base = r, avg_cols = replicate c None, min_cols = replicate c None,
      max_cols = replicate c None, stddev_cols = replicate c None\<rparr>"

text \<open>The cells of the columns \<open>rssi_cols + rc_cols\<close> of one row.\<close>

definition values_of :: "nat list \<Rightarrow> nat list \<Rightarrow> fp_row \<Rightarrow> cell list" where
  "values_of ix jx r = map (\<lambda>i. rssi r ! i) ix @ map (\<lambda>j. rc r ! j) jx"

text \<open>\<open>df_tag.loc[a:b, rssi_cols+rc_cols].values\<close>.\<close>

definition tag_window :: "nat list \<Rightarrow> nat list \<Rightarrow> feat_row list \<Rightarrow> int \<Rightarrow> int \<Rightarrow> cell list list" where
  "tag_window ix jx df_tag a b = map (\<lambda>r. values_of ix jx (base r)) (loc_slice df_tag a b)"

text \<open>
  The body of the loop over the tags, lines 83-99, for the rows of one tag: the first
  window, the loop that gives its statistics to the first rows, and the loop over the later
  rows.
\<close>

definition process_tag ::
  "(real \<Rightarrow> real) \<Rightarrow> int \<Rightarrow> int \<Rightarrow> nat list \<Rightarrow> nat list \<Rightarrow> fp_row list
     \<Rightarrow> py_error + feat_row list" where
  "process_tag around first_window_size window_size ix jx tag_rows =
     (let df_tag = map (nan_row (length ix + length jx)) tag_rows;
          n = int (length df_tag);
          window = (if first_window_size \<le> n then tag_window ix jx df_tag 0 (first_window_size - 1)
                    else tag_window ix jx df_tag 0 (n - 1))
      in case window_stats around window of
           Inl e \<Rightarrow> Inl e
         | Inr st \<Rightarrow>
             for_loop (py_range first_window_size n)
               (\<lambda>i df. case window_stats around (tag_window ix jx df (max 0 (i - window_size + 1)) i) of
                          Inl e \<Rightarrow> Inl e
                        | Inr st' \<Rightarrow> Inr (df[nat i := set_stats st' (df ! nat i)]))
               (fold (\<lambda>i df. df[nat i := set_stats st (df ! nat i)])
                  (py_range 0 (min first_window_size n)) df_tag))"

text \<open>
  One iteration of the loop over the tags. The labels \<open>rssi_antenna1\<close>, ...,
  \<open>rssi_antennak\<close> and \<open>rc_antenna1\<close>, ..., \<open>rc_antennak\<close> are looked up in the
  frame's columns when the window of line 86 is read.
\<close>

definition features_of_tag ::
  "(real \<Rightarrow> real) \<Rightarrow> frame \<Rightarrow> int \<Rightarrow> int \<Rightarrow> string \<Rightarrow> py_error + feat_row list" where
  "features_of_tag around dbase first_window_size window_size tag =
     (let num_ant = length (rssi_names dbase);
          labels = map (\<lambda>i. str_nat (i + 1)) [0..<num_ant]
      in case resolve (rssi_names dbase) labels of
           Inl e \<Rightarrow> Inl e
         | Inr ix \<Rightarrow>
            (case resolve (rc_names dbase) labels of
               Inl e \<Rightarrow> Inl e
             | Inr jx \<Rightarrow>
                process_tag around first_window_size window_size ix jx
                  (filter (\<lambda>r. TagID r = tag) (rows dbase))))"

text \<open>The whole function. The final \<open>sort_values\<close> is stable.\<close>

definition sliding_window_features ::
  "(real \<Rightarrow> real) \<Rightarrow> frame \<Rightarrow> int \<Rightarrow> int \<Rightarrow> py_error + feat_row list" where
  "sliding_window_features around dbase first_window_size window_size =
     (case for_loop (np_unique (map TagID (rows dbase)))
             (\<lambda>tag newdbase.
                case features_of_tag around dbase first_window_size window_size tag of
                  Inl e \<Rightarrow> Inl e
                | Inr df_tag \<Rightarrow> Inr (newdbase @ df_tag))
             [] of
        Inl e \<Rightarrow> Inl e
      | Inr newdbase \<Rightarrow> Inr (sort_key (\<lambda>r. (read (base r), TagID (base r))) newdbase))"

text \<open>
  The cells of the base columns \<open>rssi_cols + rc_cols\<close> of a row, as the function selects
  them by label (no cell when a label is missing).
\<close>

definition base_values :: "frame \<Rightarrow> fp_row \<Rightarrow> cell list" where
  "base_values dbase r =
     (case resolve (rssi_names dbase) (map (\<lambda>i. str_nat (i + 1)) [0..<length (rssi_names dbase)]) of
        Inl e \<Rightarrow> []
      | Inr ix \<Rightarrow>
         (case resolve (rc_names dbase) (map (\<lambda>i. str_nat (i + 1)) [0..<length (rssi_names dbase)]) of
            Inl e \<Rightarrow> []
          | Inr jx \<Rightarrow> values_of ix jx r))"

section \<open>services/positioning.py: train_rf_models and evaluate_position\<close>

text \<open>
  The columns of the feature frame in their final order: the raw cells, the four statistic
  blocks, then \<open>TagID\<close>, \<open>read\<close>, \<open>true_x\<close>, \<open>true_y\<close>.
\<close>

datatype colval = Num cell | Txt string | Stamp int



text \<open>
  Python's \<open>float\<close> on a text: blanks around it, a sign, digits with an optional point and
  an optional exponent, underscores between digits, or one of the words nan, inf and
  infinity in any case. The result is \<open>Some None\<close> for NaN, and \<open>None\<close> when the text is no
  number; an infinity is \<open>None\<close> as well, since the regressor rejects it with the same
  \<open>ValueError\<close>.
\<close>

definition digit_of :: "char \<Rightarrow> nat option" where
  "digit_of c =
     (if c \<in> set ''0123456789''
      then Some (length (takeWhile (\<lambda>d. d \<noteq> c) ''0123456789'')) else None)"

fun digits_acc :: "nat \<Rightarrow> string \<Rightarrow> nat option" where
  "digits_acc n [] = Some n"
| "digits_acc n (c # cs) =
     (if c = CHR ''_'' then
        (case cs of [] \<Rightarrow> None
         | d # _ \<Rightarrow> if digit_of d = None then None else digits_acc n cs)
      else (case digit_of c of None \<Rightarrow> None | Some d \<Rightarrow> digits_acc (10 * n + d) cs))"

definition digits_val :: "string \<Rightarrow> nat option" where
  "digits_val s =
     (case s of [] \<Rightarrow> None | c # _ \<Rightarrow> if digit_of c = None then None else digits_acc 0 s)"

definition mantissa_val :: "string \<Rightarrow> real option" where
  "mantissa_val m =
     (let ip = takeWhile (\<lambda>c. c \<noteq> CHR ''.'') m; r = dropWhile (\<lambda>c. c \<noteq> CHR ''.'') m
      in if r = [] then map_option of_nat (digits_val ip)
         else if ip = [] \<and> tl r = [] then None
         else (case (if ip = [] then Some 0 else digits_val ip,
                     if tl r = [] then Some 0 else digits_val (tl r)) of
                 (Some a, Some b) \<Rightarrow>
                   Some (of_nat a + of_nat b / 10 ^ length (filter (\<lambda>c. c \<noteq> CHR ''_'') (tl r)))
               | _ \<Rightarrow> None))"

definition exponent_val :: "string \<Rightarrow> int option" where
  "exponent_val e =
     (case e of
        [] \<Rightarrow> None
      | c # cs \<Rightarrow>
          if c = CHR ''-'' then map_option (\<lambda>n. - int n) (digits_val cs)
          else if c = CHR ''+'' then map_option int (digits_val cs)
          else map_option int (digits_val e))"

definition lower :: "char \<Rightarrow> char" where
  "lower c =
     (if c = CHR ''A'' then CHR ''a'' else if c = CHR ''F'' then CHR ''f''
      else if c = CHR ''I'' then CHR ''i'' else if c = CHR ''N'' then CHR ''n''
      else if c = CHR ''T'' then CHR ''t'' else if c = CHR ''Y'' then CHR ''y'' else c)"

definition is_blank :: "char \<Rightarrow> bool" where
  "is_blank c \<longleftrightarrow> c \<in> {CHR '' '', CHR 0x09, CHR 0x0A, CHR 0x0B, CHR 0x0C, CHR 0x0D}"

definition py_float :: "string \<Rightarrow> cell option" where
  "py_float text =
     (let s = rev (dropWhile is_blank (rev (dropWhile is_blank text)));
          neg = (s \<noteq> [] \<and> hd s = CHR ''-'');
          u = (if s \<noteq> [] \<and> (hd s = CHR ''-'' \<or> hd s = CHR ''+'') then tl s else s);
          m = takeWhile (\<lambda>c. c \<noteq> CHR ''e'' \<and> c \<noteq> CHR ''E'') u;
          r = dropWhile (\<lambda>c. c \<noteq> CHR ''e'' \<and> c \<noteq> CHR ''E'') u
      in if map lower u = ''nan'' then Some None
         else if map lower u = ''inf'' \<or> map lower u = ''infinity'' then None
         else (case mantissa_val m of
                 None \<Rightarrow> None
               | Some x \<Rightarrow>
                   if r = [] then Some (Some (if neg then - x else x))
                   else (case exponent_val (tl r) of
                           None \<Rightarrow> None
                         | Some e \<Rightarrow>
                             Some (Some ((if neg then - x else x) *
                               (if 0 \<le> e then 10 ^ nat e else 1 / 10 ^ nat (- e)))))))"

text \<open>
  The conversion of one cell of the input matrix to a float, as numpy does it when
  scikit-learn validates the matrix: a text goes through \<open>float\<close> (\<open>ValueError\<close> when it is
  no number), a timestamp raises \<open>TypeError\<close>.
\<close>

definition cell_to_float :: "colval \<Rightarrow> py_error + cell" where
  "cell_to_float v =
     (case v of
        Num c \<Rightarrow> Inr c
      | Txt s \<Rightarrow> (case py_float s of None \<Rightarrow> Inl ValueError | Some c \<Rightarrow> Inr c)
      | Stamp t \<Rightarrow> Inl TypeError)"

text \<open>
  \<open>RandomForestRegressor(n_estimators=1000, random_state=0).fit(X, y)\<close>, as far as its
  outcome goes: the input validation of scikit-learn (1.4 or later, where NaN features are
  accepted) converts the cells row by row, rejects a matrix with no row or no column and
  rejects NaN labels. The seed is fixed, so the fitted model is a function of the training
  set, which stands for it here.
\<close>

datatype forest = Forest "cell list list" "real list"

definition rf_fit :: "colval list list \<Rightarrow> cell list \<Rightarrow> py_error + forest" where
  "rf_fit X y =
     (case collect (map (\<lambda>row. collect (map cell_to_float row)) X) of
        Inl e \<Rightarrow> Inl e
      | Inr Xf \<Rightarrow>
          if Xf = [] \<or> hd Xf = [] then Inl ValueError
          else if None \<in> set y then Inl ValueError
          else Inr (Forest Xf (map the y)))"






section \<open>Specification-side notions\<close>



text \<open>
  An example: one antenna, tag T1 read at times 0, 1, 2 and tag T2 read at time 1, and the
  feature frame for window sizes 2 and 2.
\<close>

definition example_frame :: frame where
  "example_frame =
     \<lparr>rssi_names = [''1''], rc_names = [''1''],
      rows = [\<lparr>TagID = ''T1'', read = 0, rssi = [Some 0], rc = [Some 1],
                row_true_x = Some 0, row_true_y = Some 0\<rparr>,
              \<lparr>TagID = ''T1'', read = 1, rssi = [Some 2], rc = [Some 1],
                row_true_x = Some 0, row_true_y = Some 0\<rparr>,
              \<lparr>TagID = ''T1'', read = 2, rssi = [Some 4], rc = [Some 1],
                row_true_x = Some 0, row_true_y = Some 0\<rparr>,
              \<lparr>TagID = ''T2'', read = 1, rssi = [Some 10], rc = [Some 1],
                row_true_x = None, row_true_y = None\<rparr>]\<rparr>"

definition example_output :: "feat_row list" where
  "example_output =
     [\<lparr>base = \<lparr>TagID = ''T1'', read = 0, rssi = [Some 0], rc = [Some 1],
                row_true_x = Some 0, row_true_y = Some 0\<rparr>,
           avg_cols = [Some 1, Some 1], min_cols = [Some 0, Some 1],
           max_cols = [Some 2, Some 1], stddev_cols = [Some 1, Some 0]\<rparr>,
          \<lparr>base = \<lparr>TagID = ''T1'', read = 1, rssi = [Some 2], rc = [Some 1],
                row_true_x = Some 0, row_true_y = Some 0\<rparr>,
           avg_cols = [Some 1, Some 1], min_cols = [Some 0, Some 1],
           max_cols = [Some 2, Some 1], stddev_cols = [Some 1, Some 0]\<rparr>,
          \<lparr>base = \<lparr>TagID = ''T2'', read = 1, rssi = [Some 10], rc = [Some 1],
                row_true_x = None, row_true_y = None\<rparr>,
           avg_cols = [Some 10, Some 1], min_cols = [Some 10, Some 1],
           max_cols = [Some 10, Some 1], stddev_cols = [Some 0, Some 0]\<rparr>,
          \<lparr>base = \<lparr>TagID = ''T1'', read = 2, rssi = [Some 4], rc = [Some 1],
                row_true_x = Some 0, row_true_y = Some 0\<rparr>,
           avg_cols = [Some 3, Some 1], min_cols = [Some 2, Some 1],
           max_cols = [Some 4, Some 1], stddev_cols = [Some 1, Some 0]\<rparr>]"



section \<open>Properties of the tag store\<close>

lemma Tag_of_row_checked: "schema_check r \<Longrightarrow> Tag_of_row r = Inr (as_Tag r)"
  by (auto simp: schema_check_def Tag_of_row_def Tag_post_init_def as_Tag_def)

lemma collect_Tag_of_row:
  "\<forall>r \<in> set rs. schema_check r \<Longrightarrow> collect (map Tag_of_row rs) = Inr (map as_Tag rs)"
  by (induction rs) (simp_all add: Tag_of_row_checked)

text \<open>
  Claim C10. On a table whose rows satisfy the schema's checks, \<open>list_tags\<close> called with
  any filter other than exactly \<open>'ref'\<close> or \<open>'tar'\<close> (no filter included) returns every
  tag of the table, not an empty result and not an error; called with \<open>'ref'\<close> or
  \<open>'tar'\<close> it returns exactly the tags of that type.
\<close>

theorem list_tags_filter:
  assumes "\<forall>r \<in> set conn. schema_check r"
  shows "(tag_type \<notin> {Some ''ref'', Some ''tar''} \<longrightarrow>
            list_tags conn tag_type = Inr (map as_Tag conn)) \<and>
         (tag_type \<in> {Some ''ref'', Some ''tar''} \<longrightarrow>
            list_tags conn tag_type =
              Inr (map as_Tag (filter (\<lambda>q. Some (r_type q) = tag_type) conn)))"
proof -
  have sub: "\<forall>r \<in> set (filter (\<lambda>q. Some (r_type q) = tag_type) conn). schema_check r"
    using assms by simp
  show ?thesis
    using collect_Tag_of_row [OF assms] collect_Tag_of_row [OF sub]
    by (simp add: list_tags_def Let_def)
qed

theorem list_tags_filter_witness:
  "schema_check \<lparr>r_tag_id = ''T1'', r_type = ''ref'', r_true_x = Some 0, r_true_y = Some 0,
       r_pred_x = None, r_pred_y = None, r_is_read = 0\<rparr> \<and>
   schema_check \<lparr>r_tag_id = ''T2'', r_type = ''tar'', r_true_x = None, r_true_y = None,
       r_pred_x = Some 2, r_pred_y = Some 3, r_is_read = 1\<rparr> \<and>
   list_tags
     [\<lparr>r_tag_id = ''T1'', r_type = ''ref'', r_true_x = Some 0, r_true_y = Some 0,
       r_pred_x = None, r_pred_y = None, r_is_read = 0\<rparr>,
      \<lparr>r_tag_id = ''T2'', r_type = ''tar'', r_true_x = None, r_true_y = None,
       r_pred_x = Some 2, r_pred_y = Some 3, r_is_read = 1\<rparr>] (Some ''REF'') =
   Inr [\<lparr>tag_id = ''T1'', type = ''ref'', true_x = Some 0, true_y = Some 0,
          pred_x = None, pred_y = None, is_read = False\<rparr>,
        \<lparr>tag_id = ''T2'', type = ''tar'', true_x = None, true_y = None,
          pred_x = Some 2, pred_y = Some 3, is_read = True\<rparr>] \<and>
   list_tags
     [\<lparr>r_tag_id = ''T1'', r_type = ''ref'', r_true_x = Some 0, r_true_y = Some 0,
       r_pred_x = None, r_pred_y = None, r_is_read = 0\<rparr>,
      \<lparr>r_tag_id = ''T2'', r_type = ''tar'', r_true_x = None, r_true_y = None,
       r_pred_x = Some 2, r_pred_y = Some 3, r_is_read = 1\<rparr>] (Some ''tar'') =
   Inr [\<lparr>tag_id = ''T2'', type = ''tar'', true_x = None, true_y = None,
          pred_x = Some 2, pred_y = Some 3, is_read = True\<rparr>]"
proof -
  let ?r1 = "\<lparr>r_tag_id = ''T1'', r_type = ''ref'', r_true_x = Some (0::real),
       r_true_y = Some (0::real), r_pred_x = None, r_pred_y = None, r_is_read = 0\<rparr>"
  let ?r2 = "\<lparr>r_tag_id = ''T2'', r_type = ''tar'', r_true_x = None, r_true_y = None,
       r_pred_x = Some (2::real), r_pred_y = Some (3::real), r_is_read = 1\<rparr>"
  have c1: "schema_check ?r1" and c2: "schema_check ?r2"
    by (simp_all add: schema_check_def)
  then have ok: "\<forall>r \<in> set [?r1, ?r2]. schema_check r"
    by simp
  show ?thesis
    using c1 c2 list_tags_filter [OF ok, of "Some ''REF''"] list_tags_filter [OF ok, of "Some ''tar''"]
    by (simp add: as_Tag_def)
qed

text \<open>The invariant that the checks do enforce: a reference tag has no predicted coordinates.\<close>

lemma schema_check_no_pred:
  "schema_check r \<Longrightarrow> r_type r = ''ref'' \<Longrightarrow> r_pred_x r = None \<and> r_pred_y r = None"
  by (auto simp: schema_check_def)

lemma Tag_post_init_no_pred:
  "Tag_post_init t = Inr t' \<Longrightarrow> type t' = ''ref'' \<Longrightarrow> pred_x t' = None \<and> pred_y t' = None"
  by (auto simp: Tag_post_init_def split: if_splits)

lemma insert_tag_keeps_check:
  "\<forall>r \<in> set conn. schema_check r \<Longrightarrow> insert_tag conn t = Inr conn' \<Longrightarrow>
   \<forall>r \<in> set conn'. schema_check r"
  by (auto simp: insert_tag_def Let_def split: if_splits)

lemma update_tag_keeps_check:
  "\<forall>r \<in> set conn. schema_check r \<Longrightarrow> update_tag conn t = Inr conn' \<Longrightarrow>
   \<forall>r \<in> set conn'. schema_check r"
  by (auto simp: update_tag_def Let_def split: if_splits)

text \<open>
  Claim C8, the claim as stated fails: a reference tag with no true coordinates is accepted
  by the constructor and by the table's checks.
\<close>

theorem reference_tag_without_truth_admitted:
  "Tag_post_init \<lparr>tag_id = ''T1'', type = ''ref'', true_x = None, true_y = None,
       pred_x = None, pred_y = None, is_read = False\<rparr> =
   Inr \<lparr>tag_id = ''T1'', type = ''ref'', true_x = None, true_y = None,
       pred_x = None, pred_y = None, is_read = False\<rparr> \<and>
   insert_tag [] \<lparr>tag_id = ''T1'', type = ''ref'', true_x = None, true_y = None,
       pred_x = None, pred_y = None, is_read = False\<rparr> =
   Inr [\<lparr>r_tag_id = ''T1'', r_type = ''ref'', r_true_x = None, r_true_y = None,
       r_pred_x = None, r_pred_y = None, r_is_read = 0\<rparr>]"
  by (simp add: Tag_post_init_def insert_tag_def row_of_Tag_def schema_check_def)

text \<open>
  Claim C8, amended. Every tag that the constructor accepts, and every row of the tag
  table after a successful \<open>insert_tag\<close> or \<open>update_tag\<close> on a table that satisfied the
  schema's checks, has, when its type is \<open>'ref'\<close>, no predicted coordinates. True
  coordinates are not required.
\<close>

theorem reference_tag_no_prediction:
  "(Tag_post_init t = Inr t' \<and> type t' = ''ref'' \<longrightarrow> pred_x t' = None \<and> pred_y t' = None) \<and>
   ((\<forall>r \<in> set conn. schema_check r) \<and> (insert_tag conn t = Inr conn' \<or> update_tag conn t = Inr conn')
      \<longrightarrow> (\<forall>r \<in> set conn'. schema_check r \<and>
             (r_type r = ''ref'' \<longrightarrow> r_pred_x r = None \<and> r_pred_y r = None)))"
  using Tag_post_init_no_pred [of t t'] insert_tag_keeps_check [of conn t conn']
    update_tag_keeps_check [of conn t conn'] schema_check_no_pred
  by blast

theorem reference_tag_no_prediction_witness:
  "Tag_post_init \<lparr>tag_id = ''T1'', type = ''ref'', true_x = Some 1, true_y = Some 2,
       pred_x = None, pred_y = None, is_read = False\<rparr> =
   Inr \<lparr>tag_id = ''T1'', type = ''ref'', true_x = Some 1, true_y = Some 2,
       pred_x = None, pred_y = None, is_read = False\<rparr> \<and>
   insert_tag [] \<lparr>tag_id = ''T1'', type = ''ref'', true_x = Some 1, true_y = Some 2,
       pred_x = None, pred_y = None, is_read = False\<rparr> =
   Inr [\<lparr>r_tag_id = ''T1'', r_type = ''ref'', r_true_x = Some 1, r_true_y = Some 2,
       r_pred_x = None, r_pred_y = None, r_is_read = 0\<rparr>] \<and>
   schema_check \<lparr>r_tag_id = ''T1'', r_type = ''ref'', r_true_x = Some 1, r_true_y = Some 2,
       r_pred_x = None, r_pred_y = None, r_is_read = 0\<rparr> \<and>
   r_pred_x \<lparr>r_tag_id = ''T1'', r_type = ''ref'', r_true_x = Some (1::real), r_true_y = Some (2::real),
       r_pred_x = None :: real option, r_pred_y = None :: real option, r_is_read = 0::int\<rparr> = None"
proof -
  let ?t = "\<lparr>tag_id = ''T1'', type = ''ref'', true_x = Some (1::real), true_y = Some (2::real),
       pred_x = None, pred_y = None, is_read = False\<rparr>"
  let ?r = "\<lparr>r_tag_id = ''T1'', r_type = ''ref'', r_true_x = Some (1::real),
       r_true_y = Some (2::real), r_pred_x = None, r_pred_y = None, r_is_read = 0\<rparr>"
  have a: "Tag_post_init ?t = Inr ?t"
    by (simp add: Tag_post_init_def)
  have b: "insert_tag [] ?t = Inr [?r]"
    by (simp add: insert_tag_def row_of_Tag_def schema_check_def)
  have c: "\<forall>r \<in> set ([] :: tag_row list). schema_check r"
    by simp
  from reference_tag_no_prediction [of ?t ?t "[]" "[?r]"] a b c
  show ?thesis by simp
qed

section \<open>Properties of load_data_from_db\<close>

lemma col_index_Some:
  "a \<in> set names \<Longrightarrow> \<exists>j. col_index names a = Some j \<and> j < length names \<and> names ! j = a"
  by (induction names) auto

lemma merge_left_mem:
  "r \<in> set (merge_left df tags) \<longleftrightarrow>
   (\<exists>b \<in> set df. r \<in> set (case filter (\<lambda>t. r_tag_id t = TagID b) tags of
                               [] \<Rightarrow> [b]
                             | ms \<Rightarrow> map (\<lambda>t. b\<lparr>row_true_x := r_true_x t, row_true_y := r_true_y t\<rparr>) ms))"
  by (simp add: merge_left_def)

lemma merge_left_sound:
  assumes "r \<in> set (merge_left df tags)"
  shows "\<exists>b \<in> set df. TagID r = TagID b \<and> read r = read b \<and> rssi r = rssi b \<and> rc r = rc b"
proof -
  from assms obtain b where b: "b \<in> set df"
    and r: "r \<in> set (case filter (\<lambda>t. r_tag_id t = TagID b) tags of
                               [] \<Rightarrow> [b]
                             | ms \<Rightarrow> map (\<lambda>t. b\<lparr>row_true_x := r_true_x t, row_true_y := r_true_y t\<rparr>) ms)"
    unfolding merge_left_mem by blast
  have "TagID r = TagID b \<and> read r = read b \<and> rssi r = rssi b \<and> rc r = rc b"
  proof (cases "filter (\<lambda>t. r_tag_id t = TagID b) tags")
    case Nil
    with r show ?thesis by simp
  next
    case (Cons m ms)
    with r show ?thesis by auto
  qed
  with b show ?thesis by blast
qed

lemma merge_left_complete:
  assumes b: "b \<in> set df"
  shows "\<exists>r \<in> set (merge_left df tags). TagID r = TagID b \<and> read r = read b \<and> rssi r = rssi b \<and> rc r = rc b"
proof (cases "filter (\<lambda>t. r_tag_id t = TagID b) tags")
  case Nil
  with b have "b \<in> set (merge_left df tags)"
    unfolding merge_left_mem by force
  then show ?thesis by blast
next
  case (Cons m ms)
  let ?r = "b\<lparr>row_true_x := r_true_x m, row_true_y := r_true_y m\<rparr>"
  from Cons b have "?r \<in> set (merge_left df tags)"
    unfolding merge_left_mem by force
  moreover have "TagID ?r = TagID b \<and> read ?r = read b \<and> rssi ?r = rssi b \<and> rc ?r = rc b"
    by simp
  ultimately show ?thesis by blast
qed

lemma parsed_time_kept:
  assumes "q \<in> set record_table"
  shows "parsed_time record_table q \<noteq> None \<longleftrightarrow>
     has_fraction (rec_read_time q) = has_fraction (rec_read_time (hd record_table))"
proof (cases record_table)
  case Nil
  with assms show ?thesis by simp
next
  case (Cons q0 qs)
  then show ?thesis by (simp add: parsed_time_def)
qed

text \<open>
  Claim C9. For the readings of a (tag, time, antenna) triple, one or several: every row
  of the frame returned by \<open>load_data_from_db\<close> for that tag and time has a column for that
  antenna, and its signal cell and read-count cell in that column are the arithmetic means
  of the readings' values. Such a row exists when the stored text of the time has the layout
  of the first reading's, that is when \<open>parse_dates\<close> does not turn it into NaT.
\<close>

theorem pivot_mean:
  assumes "dup = filter (\<lambda>q. rec_tag_id q = t \<and> rec_read_time q = s \<and> rec_antenna_id q = a) record_table"
    and "dup \<noteq> []"
  shows "(\<forall>r \<in> set (rows (load_data_from_db tag_table record_table)).
            TagID r = t \<and> read r = s \<longrightarrow>
              (\<exists>j. col_index (rssi_names (load_data_from_db tag_table record_table)) a = Some j \<and>
                   col_index (rc_names (load_data_from_db tag_table record_table)) a = Some j \<and>
                   rssi r ! j = Some (sum_list (map rec_rssi dup) / of_nat (length dup)) \<and>
                   rc r ! j = Some (sum_list (map (\<lambda>q. of_int (rec_rc q)) dup) / of_nat (length dup)))) \<and>
         (has_fraction s = has_fraction (rec_read_time (hd record_table)) \<longrightarrow>
            (\<exists>r \<in> set (rows (load_data_from_db tag_table record_table)). TagID r = t \<and> read r = s))"
proof -
  let ?recs = "filter (\<lambda>q. parsed_time record_table q \<noteq> None) record_table"
  let ?ants = "pivot_columns ?recs"
  let ?mk = "\<lambda>k. \<lparr>TagID = fst k, read = snd k,
                 rssi = map (pivot_cell rec_rssi ?recs k) ?ants,
                 rc = map (pivot_cell (\<lambda>q. of_int (rec_rc q)) ?recs k) ?ants,
                 row_true_x = None, row_true_y = None\<rparr>"
  let ?df = "map ?mk (pivot_index ?recs)"
  let ?kept = "has_fraction s = has_fraction (rec_read_time (hd record_table))"
  have fr: "load_data_from_db tag_table record_table =
      \<lparr>rssi_names = ?ants, rc_names = ?ants, rows = merge_left ?df tag_table\<rparr>"
    by (simp add: load_data_from_db_def Let_def)
  have kept_iff: "q \<in> set ?recs \<longleftrightarrow> q \<in> set record_table \<and>
      has_fraction (rec_read_time q) = has_fraction (rec_read_time (hd record_table))" for q
    using parsed_time_kept [of q record_table] by auto
  have same: "(\<lambda>q. (rec_tag_id q, rec_read_time q) = (t, s) \<and> rec_antenna_id q = a) =
      (\<lambda>q. rec_tag_id q = t \<and> rec_read_time q = s \<and> rec_antenna_id q = a)"
    by auto
  have dup': "filter (\<lambda>q. rec_tag_id q = t \<and> rec_read_time q = s \<and> rec_antenna_id q = a) ?recs = dup"
    if k: ?kept
  proof -
    have "filter (\<lambda>q. rec_tag_id q = t \<and> rec_read_time q = s \<and> rec_antenna_id q = a) ?recs =
        filter (\<lambda>q. (rec_tag_id q = t \<and> rec_read_time q = s \<and> rec_antenna_id q = a) \<and>
                     parsed_time record_table q \<noteq> None) record_table"
      by (simp add: conj_commute)
    also have "\<dots> = filter (\<lambda>q. rec_tag_id q = t \<and> rec_read_time q = s \<and> rec_antenna_id q = a)
        record_table"
      by (rule filter_cong [OF refl]) (use k parsed_time_kept in auto)
    finally show ?thesis using assms(1) by simp
  qed
  have cells: "\<exists>j. col_index ?ants a = Some j \<and>
        rssi r ! j = Some (sum_list (map rec_rssi dup) / of_nat (length dup)) \<and>
        rc r ! j = Some (sum_list (map (\<lambda>q. of_int (rec_rc q)) dup) / of_nat (length dup))"
    if r: "r \<in> set (merge_left ?df tag_table)" and ts: "TagID r = t \<and> read r = s" for r
  proof -
    from merge_left_sound [OF r] obtain b where b: "b \<in> set ?df" "TagID r = TagID b"
        "read r = read b" "rssi r = rssi b" "rc r = rc b"
      by blast
    then obtain k where k: "b = ?mk k" and kin: "k \<in> set (pivot_index ?recs)" by auto
    with b ts have kts: "k = (t, s)" by (cases k) simp
    from kin kts obtain q where "q \<in> set ?recs" "rec_read_time q = s"
      by (auto simp: pivot_index_def)
    then have kept: ?kept using kept_iff by auto
    note d = dup' [OF kept]
    from assms(2) d obtain q' where q': "q' \<in> set ?recs" "rec_antenna_id q' = a"
      by (metis (mono_tags, lifting) filter_False mem_Collect_eq set_filter)
    then have "a \<in> set ?ants"
      by (force simp: pivot_columns_def)
    then obtain j where j: "col_index ?ants a = Some j" "j < length ?ants" "?ants ! j = a"
      using col_index_Some by blast
    have cell1: "pivot_cell rec_rssi ?recs (t, s) a =
        Some (sum_list (map rec_rssi dup) / of_nat (length dup))"
      using assms(2) unfolding pivot_cell_def same d by (simp add: np_mean_def)
    have cell2: "pivot_cell (\<lambda>q. of_int (rec_rc q)) ?recs (t, s) a =
        Some (sum_list (map (\<lambda>q. of_int (rec_rc q)) dup) / of_nat (length dup))"
      using assms(2) unfolding pivot_cell_def same d by (simp add: np_mean_def)
    from k kts b j cell1 cell2 show ?thesis by simp
  qed
  have ex: "\<exists>r \<in> set (merge_left ?df tag_table). TagID r = t \<and> read r = s" if kept: ?kept
  proof -
    from assms(2) dup' [OF kept] obtain q where "q \<in> set ?recs" "rec_tag_id q = t"
        "rec_read_time q = s"
      by (metis (mono_tags, lifting) filter_False mem_Collect_eq set_filter)
    then have key: "(t, s) \<in> set (pivot_index ?recs)"
      by (force simp: pivot_index_def)
    have "?mk (t, s) \<in> ?mk ` set (pivot_index ?recs)" using key by (rule imageI)
    then have "?mk (t, s) \<in> set ?df" by simp
    from merge_left_complete [OF this, of tag_table] show ?thesis by auto
  qed
  show ?thesis
    unfolding fr using cells ex by auto
qed

theorem pivot_mean_witness:
  "filter (\<lambda>q. rec_tag_id q = ''T1'' \<and> rec_read_time q = 0 \<and> rec_antenna_id q = ''1'')
     [\<lparr>rec_tag_id = ''T1'', rec_antenna_id = ''1'', rec_rc = 1, rec_rssi = - 50, rec_read_time = 0\<rparr>,
      \<lparr>rec_tag_id = ''T1'', rec_antenna_id = ''1'', rec_rc = 3, rec_rssi = - 60, rec_read_time = 0\<rparr>,
      \<lparr>rec_tag_id = ''T1'', rec_antenna_id = ''1'', rec_rc = 1, rec_rssi = - 70, rec_read_time = 1500000\<rparr>]
     \<noteq> [] \<and>
   has_fraction 0 = has_fraction (rec_read_time (hd
     [\<lparr>rec_tag_id = ''T1'', rec_antenna_id = ''1'', rec_rc = 1, rec_rssi = - 50, rec_read_time = 0\<rparr>,
      \<lparr>rec_tag_id = ''T1'', rec_antenna_id = ''1'', rec_rc = 3, rec_rssi = - 60, rec_read_time = 0\<rparr>,
      \<lparr>rec_tag_id = ''T1'', rec_antenna_id = ''1'', rec_rc = 1, rec_rssi = - 70, rec_read_time = 1500000\<rparr>])) \<and>
   load_data_from_db []
     [\<lparr>rec_tag_id = ''T1'', rec_antenna_id = ''1'', rec_rc = 1, rec_rssi = - 50, rec_read_time = 0\<rparr>,
      \<lparr>rec_tag_id = ''T1'', rec_antenna_id = ''1'', rec_rc = 3, rec_rssi = - 60, rec_read_time = 0\<rparr>,
      \<lparr>rec_tag_id = ''T1'', rec_antenna_id = ''1'', rec_rc = 1, rec_rssi = - 70, rec_read_time = 1500000\<rparr>]
   = \<lparr>rssi_names = [''1''], rc_names = [''1''],
      rows = [\<lparr>TagID = ''T1'', read = 0, rssi = [Some (- 55)], rc = [Some 2],
               row_true_x = None, row_true_y = None\<rparr>]\<rparr> \<and>
   (\<exists>r \<in> set (rows (load_data_from_db []
     [\<lparr>rec_tag_id = ''T1'', rec_antenna_id = ''1'', rec_rc = 1, rec_rssi = - 50, rec_read_time = 0\<rparr>,
      \<lparr>rec_tag_id = ''T1'', rec_antenna_id = ''1'', rec_rc = 3, rec_rssi = - 60, rec_read_time = 0\<rparr>,
      \<lparr>rec_tag_id = ''T1'', rec_antenna_id = ''1'', rec_rc = 1, rec_rssi = - 70, rec_read_time = 1500000\<rparr>])).
      TagID r = ''T1'' \<and> read r = 0)"
proof -
  let ?recs = "[\<lparr>rec_tag_id = ''T1'', rec_antenna_id = ''1'', rec_rc = 1, rec_rssi = - 50, rec_read_time = 0\<rparr>,
      \<lparr>rec_tag_id = ''T1'', rec_antenna_id = ''1'', rec_rc = 3, rec_rssi = - 60, rec_read_time = 0\<rparr>,
      \<lparr>rec_tag_id = ''T1'', rec_antenna_id = ''1'', rec_rc = 1, rec_rssi = - 70, rec_read_time = 1500000\<rparr>]"
  let ?dup = "filter (\<lambda>q. rec_tag_id q = ''T1'' \<and> rec_read_time q = 0 \<and> rec_antenna_id q = ''1'') ?recs"
  have ne: "?dup \<noteq> []" by simp
  have k: "has_fraction 0 = has_fraction (rec_read_time (hd ?recs))" by simp
  have fr: "load_data_from_db [] ?recs = \<lparr>rssi_names = [''1''], rc_names = [''1''],
      rows = [\<lparr>TagID = ''T1'', read = 0, rssi = [Some (- 55)], rc = [Some 2],
               row_true_x = None, row_true_y = None\<rparr>]\<rparr>"
    by (simp add: load_data_from_db_def parsed_time_def has_fraction_def pivot_columns_def
        pivot_index_def pivot_cell_def merge_left_def np_mean_def Let_def)
  from pivot_mean [OF refl ne, of "[]"] k
  have ex: "\<exists>r \<in> set (rows (load_data_from_db [] ?recs)). TagID r = ''T1'' \<and> read r = 0"
    by blast
  from ne k fr ex show ?thesis
    by (intro conjI)
qed

section \<open>Properties of the loops\<close>

lemma collect_Inr_iff: "collect ys = Inr vs \<longleftrightarrow> ys = map Inr vs"
proof (induction ys arbitrary: vs)
  case Nil
  then show ?case by auto
next
  case (Cons y ys)
  show ?case
  proof (cases y)
    case (Inl e)
    then show ?thesis by (cases vs) auto
  next
    case (Inr v)
    show ?thesis
    proof (cases "collect ys")
      case (Inl e)
      with Cons.IH have "\<And>ws. ys \<noteq> map Inr ws" by (metis Inl_Inr_False)
      with Inl Inr show ?thesis by (cases vs) auto
    next
      case r: (Inr ws)
      with Cons.IH have "ys = map Inr ws" by blast
      with r Inr show ?thesis by (cases vs) (auto simp: inj_map_eq_map [OF inj_Inr])
    qed
  qed
qed

lemma for_loop_append:
  "for_loop xs (\<lambda>x acc. case f x of Inl e \<Rightarrow> Inl e | Inr v \<Rightarrow> Inr (acc @ g v)) acc =
   (case collect (map f xs) of Inl e \<Rightarrow> Inl e | Inr vs \<Rightarrow> Inr (acc @ concat (map g vs)))"
proof (induction xs arbitrary: acc)
  case Nil
  then show ?case by simp
next
  case (Cons x xs)
  show ?case
  proof (cases "f x")
    case (Inl e)
    then show ?thesis by simp
  next
    case (Inr v)
    then show ?thesis
      by (simp add: Cons.IH split: sum.splits)
  qed
qed

lemma set_np_unique: "set (np_unique xs) = set xs"
  by (simp add: np_unique_def)

lemma distinct_np_unique: "distinct (np_unique xs)"
  by (simp add: np_unique_def)

lemma for_loop_collect_nth:
  assumes "for_loop xs (\<lambda>x acc. case f x of Inl e \<Rightarrow> Inl e | Inr v \<Rightarrow> Inr (acc @ g v)) [] = Inr out"
  shows "\<exists>vs. length vs = length xs \<and> (\<forall>i < length xs. f (xs ! i) = Inr (vs ! i)) \<and>
              out = concat (map g vs)"
proof -
  from assms obtain vs where c: "collect (map f xs) = Inr vs" and o: "out = concat (map g vs)"
    unfolding for_loop_append by (auto split: sum.splits)
  from c have m: "map f xs = map Inr vs" by (simp add: collect_Inr_iff)
  then have l: "length vs = length xs" by (metis length_map)
  have "f (xs ! i) = Inr (vs ! i)" if "i < length xs" for i
    using m that l by (metis nth_map)
  with l o show ?thesis by blast
qed

section \<open>Properties of evaluate_position and train_rf_models\<close>











lemma rf_fit_label_free:
  assumes "rf_fit X y = Inr m" and "None \<notin> set y'"
  shows "\<exists>m'. rf_fit X y' = Inr m'"
  using assms by (auto simp: rf_fit_def split: sum.splits if_splits)




section \<open>Properties of sliding_window_features\<close>

lemma sorted_swf:
  "sliding_window_features around dbase w0 w = Inr out \<Longrightarrow>
   sorted (map (\<lambda>r. (read (base r), TagID (base r))) out)"
  by (auto simp: sliding_window_features_def Let_def split: sum.splits)

lemma py_range_nat: "0 \<le> a \<Longrightarrow> py_range a b = map int [nat a..<nat b]"
proof (rule nth_equalityI)
  assume a: "0 \<le> a"
  show "length (py_range a b) = length (map int [nat a..<nat b])"
    using a by (auto simp: py_range_def)
next
  fix i assume a: "0 \<le> a" and i: "i < length (py_range a b)"
  then have "a + int i \<le> b - 1" by (auto simp: py_range_def)
  then have "[a..b - 1] ! i = a + int i" by (rule nth_upto)
  moreover have "i < nat b - nat a" using i a by (auto simp: py_range_def)
  ultimately show "py_range a b ! i = map int [nat a..<nat b] ! i"
    using a by (simp add: py_range_def)
qed

lemma loc_slice_map: "loc_slice (map f xs) a b = map f (loc_slice xs a b)"
  by (simp add: loc_slice_def take_map drop_map)

lemma loc_slice_take: "loc_slice xs 0 b = take (nat (b + 1)) xs"
  by (simp add: loc_slice_def)

lemma loc_slice_nonempty:
  "0 \<le> a \<Longrightarrow> a \<le> b \<Longrightarrow> nat a < length xs \<Longrightarrow> loc_slice xs a b \<noteq> []"
  by (auto simp: loc_slice_def)



lemma base_set_stats [simp]: "base (set_stats st r) = base r"
  by (simp add: set_stats_def)

lemma set_stats_twice [simp]: "set_stats st (set_stats st' r) = set_stats st r"
  by (simp add: set_stats_def)

lemma stats_of_set_stats [simp]:
  "avg_cols (set_stats st r) = s_avg st" "min_cols (set_stats st r) = s_min st"
  "max_cols (set_stats st r) = s_max st" "stddev_cols (set_stats st r) = s_stddev st"
  by (simp_all add: set_stats_def)

lemma map_base_update: "map base (df[k := set_stats st (df ! k)]) = map base df"
proof (cases "k < length df")
  case True
  then have "(map base df)[k := base (df ! k)] = map base df"
    by (metis length_map list_update_id nth_map)
  then show ?thesis by (simp add: map_update)
next
  case False
  then have "length df \<le> k" by simp
  then have "df[k := set_stats st (df ! k)] = df" by (rule list_update_beyond)
  then show ?thesis by simp
qed

lemma tag_window_base:
  "tag_window ix jx df a b = map (values_of ix jx) (loc_slice (map base df) a b)"
  by (simp add: tag_window_def loc_slice_map)

lemma warm_fold:
  "m \<le> length df \<Longrightarrow>
   fold (\<lambda>i df. df[nat i := g (df ! nat i)]) (map int [0..<m]) df = map g (take m df) @ drop m df"
proof (induction m)
  case 0
  then show ?case by simp
next
  case (Suc m)
  then have m: "m < length df" by simp
  have "fold (\<lambda>i df. df[nat i := g (df ! nat i)]) (map int [0..<Suc m]) df =
      (map g (take m df) @ drop m df)[m := g ((map g (take m df) @ drop m df) ! m)]"
    using Suc by simp
  also have "\<dots> = map g (take (Suc m) df) @ drop (Suc m) df"
    using m by (simp add: list_update_append nth_append take_Suc_conv_app_nth
        Cons_nth_drop_Suc [symmetric])
  finally show ?case .
qed

lemma slide_loop:
  fixes a :: "int \<Rightarrow> int"
  assumes "for_loop js
      (\<lambda>i df. case window_stats around (tag_window ix jx df (a i) i) of
                 Inl e \<Rightarrow> Inl e
               | Inr st' \<Rightarrow> Inr (df[nat i := set_stats st' (df ! nat i)])) df = Inr df'"
    and "\<forall>i \<in> set js. 0 \<le> i"
  shows "length df' = length df \<and> map base df' = map base df \<and>
     (\<forall>k < length df.
        (int k \<in> set js \<longrightarrow>
           (\<exists>st. window_stats around (map (values_of ix jx) (loc_slice (map base df) (a (int k)) (int k)))
                   = Inr st \<and> df' ! k = set_stats st (df ! k))) \<and>
        (int k \<notin> set js \<longrightarrow> df' ! k = df ! k))"
  using assms
proof (induction js arbitrary: df)
  case Nil
  then show ?case by simp
next
  case (Cons i js)
  let ?body = "\<lambda>i df. case window_stats around (tag_window ix jx df (a i) i) of
                 Inl e \<Rightarrow> Inl e
               | Inr st' \<Rightarrow> Inr (df[nat i := set_stats st' (df ! nat i)])"
  from Cons.prems(1) obtain st where
    st: "window_stats around (tag_window ix jx df (a i) i) = Inr st" and
    rest: "for_loop js ?body (df[nat i := set_stats st (df ! nat i)]) = Inr df'"
    by (auto split: sum.splits)
  let ?df1 = "df[nat i := set_stats st (df ! nat i)]"
  have i0: "0 \<le> i" and js0: "\<forall>i \<in> set js. 0 \<le> i"
    using Cons.prems(2) by simp_all
  have b1: "map base ?df1 = map base df"
    by (rule map_base_update)
  from Cons.IH [OF rest js0]
  have len: "length df' = length ?df1" and bs: "map base df' = map base ?df1"
    and each: "\<forall>k < length ?df1.
        (int k \<in> set js \<longrightarrow>
           (\<exists>st. window_stats around (map (values_of ix jx) (loc_slice (map base ?df1) (a (int k)) (int k)))
                   = Inr st \<and> df' ! k = set_stats st (?df1 ! k))) \<and>
        (int k \<notin> set js \<longrightarrow> df' ! k = ?df1 ! k)"
    by blast+
  have sti: "window_stats around (map (values_of ix jx) (loc_slice (map base df) (a i) i)) = Inr st"
    using st by (simp add: tag_window_base)
  have goal: "(int k \<in> set (i # js) \<longrightarrow>
           (\<exists>st. window_stats around (map (values_of ix jx) (loc_slice (map base df) (a (int k)) (int k)))
                   = Inr st \<and> df' ! k = set_stats st (df ! k))) \<and>
        (int k \<notin> set (i # js) \<longrightarrow> df' ! k = df ! k)" if k: "k < length df" for k
  proof (cases "k = nat i")
    case True
    then have ik: "int k = i" using i0 by simp
    have d1: "?df1 ! k = set_stats st (df ! k)" using True k by simp
    show ?thesis
    proof (cases "int k \<in> set js")
      case True
      with each k obtain st' where
        "window_stats around (map (values_of ix jx) (loc_slice (map base ?df1) (a (int k)) (int k))) = Inr st'"
        "df' ! k = set_stats st' (?df1 ! k)"
        by auto
      then show ?thesis using d1 b1 ik by auto
    next
      case False
      with each k have "df' ! k = ?df1 ! k" by simp
      then show ?thesis using d1 sti ik by auto
    qed
  next
    case False
    then have ne: "int k \<noteq> i" using i0 by auto
    have d1: "?df1 ! k = df ! k" using False by simp
    from each k have
      "(int k \<in> set js \<longrightarrow>
           (\<exists>st. window_stats around (map (values_of ix jx) (loc_slice (map base ?df1) (a (int k)) (int k)))
                   = Inr st \<and> df' ! k = set_stats st (?df1 ! k))) \<and>
        (int k \<notin> set js \<longrightarrow> df' ! k = ?df1 ! k)"
      by simp
    then show ?thesis unfolding d1 b1 using ne by simp
  qed
  from len bs b1 goal show ?case by simp
qed

lemma slide_loop_total:
  fixes a :: "int \<Rightarrow> int"
  assumes "\<forall>i \<in> set js. \<exists>st. window_stats around (map (values_of ix jx) (loc_slice (map base df) (a i) i)) = Inr st"
  shows "\<exists>df'. for_loop js
      (\<lambda>i df. case window_stats around (tag_window ix jx df (a i) i) of
                 Inl e \<Rightarrow> Inl e
               | Inr st' \<Rightarrow> Inr (df[nat i := set_stats st' (df ! nat i)])) df = Inr df'"
  using assms
proof (induction js arbitrary: df)
  case Nil
  then show ?case by simp
next
  case (Cons i js)
  from Cons.prems obtain st where
    st: "window_stats around (map (values_of ix jx) (loc_slice (map base df) (a i) i)) = Inr st"
    by auto
  let ?df1 = "df[nat i := set_stats st (df ! nat i)]"
  have b1: "map base ?df1 = map base df"
    by (rule map_base_update)
  have "\<forall>i \<in> set js. \<exists>st. window_stats around (map (values_of ix jx) (loc_slice (map base ?df1) (a i) i)) = Inr st"
    unfolding b1 using Cons.prems by simp
  from Cons.IH [OF this] obtain df' where "for_loop js
      (\<lambda>i df. case window_stats around (tag_window ix jx df (a i) i) of
                 Inl e \<Rightarrow> Inl e
               | Inr st' \<Rightarrow> Inr (df[nat i := set_stats st' (df ! nat i)])) ?df1 = Inr df'"
    by blast
  then show ?case using st by (simp add: tag_window_base)
qed

lemma base_nan_row [simp]: "base (nan_row c r) = r"
  by (simp add: nan_row_def)


lemma first_window:
  "(if W0 \<le> int (length df) then tag_window ix jx df 0 (W0 - 1)
    else tag_window ix jx df 0 (int (length df) - 1)) =
   map (values_of ix jx) (take (nat (min W0 (int (length df)))) (map base df))"
  by (auto simp: tag_window_base loc_slice_take min_def)

lemma process_tag_Inr:
  assumes "process_tag around W0 W ix jx rows_t = Inr out"
  shows "1 \<le> W0 \<and> rows_t \<noteq> [] \<and> length out = length rows_t \<and>
     (\<exists>st0. window_stats around (map (values_of ix jx)
                (take (nat (min W0 (int (length rows_t)))) rows_t)) = Inr st0 \<and>
        (\<forall>k < length rows_t. int k < W0 \<longrightarrow>
           out ! k = set_stats st0 (nan_row (length ix + length jx) (rows_t ! k)))) \<and>
     (\<forall>k < length rows_t. W0 \<le> int k \<longrightarrow>
        (\<exists>st. window_stats around (map (values_of ix jx)
                  (loc_slice rows_t (max 0 (int k - W + 1)) (int k))) = Inr st \<and>
           out ! k = set_stats st (nan_row (length ix + length jx) (rows_t ! k))))"
proof -
  let ?c = "length ix + length jx"
  let ?df0 = "map (nan_row ?c) rows_t"
  let ?n = "int (length rows_t)"
  let ?m = "nat (min W0 ?n)"
  let ?body = "\<lambda>i df. case window_stats around (tag_window ix jx df (max 0 (i - W + 1)) i) of
                 Inl e \<Rightarrow> Inl e
               | Inr st' \<Rightarrow> Inr (df[nat i := set_stats st' (df ! nat i)])"
  have b0: "map base ?df0 = rows_t"
    by (simp add: comp_def)
  have eq: "process_tag around W0 W ix jx rows_t =
      (case window_stats around (map (values_of ix jx) (take ?m rows_t)) of
         Inl e \<Rightarrow> Inl e
       | Inr st \<Rightarrow> for_loop (py_range W0 ?n) ?body
           (fold (\<lambda>i df. df[nat i := set_stats st (df ! nat i)]) (py_range 0 (min W0 ?n)) ?df0))"
    unfolding process_tag_def Let_def first_window by (simp add: comp_def cong: sum.case_cong)
  from assms obtain st0 where
    st0: "window_stats around (map (values_of ix jx) (take ?m rows_t)) = Inr st0" and
    loop: "for_loop (py_range W0 ?n) ?body
       (fold (\<lambda>i df. df[nat i := set_stats st0 (df ! nat i)]) (py_range 0 (min W0 ?n)) ?df0)
       = Inr out"
    unfolding eq by (cases "window_stats around (map (values_of ix jx) (take ?m rows_t))") simp_all
  from st0 have "take ?m rows_t \<noteq> []"
    by (auto simp: window_stats_def split: if_splits)
  then have w1: "1 \<le> W0" and ne: "rows_t \<noteq> []"
    by (auto simp: min_def split: if_splits)
  have mle: "?m \<le> length ?df0" by simp
  let ?df1 = "map (set_stats st0) (take ?m ?df0) @ drop ?m ?df0"
  have fold1: "fold (\<lambda>i df. df[nat i := set_stats st0 (df ! nat i)]) (py_range 0 (min W0 ?n)) ?df0
      = ?df1"
    using warm_fold [OF mle, of "set_stats st0"] by (simp add: py_range_nat)
  have b1: "map base ?df1 = rows_t"
  proof -
    have "map base ?df1 = take ?m (map base ?df0) @ drop ?m (map base ?df0)"
      by (simp add: take_map drop_map comp_def)
    then show ?thesis using b0 by simp
  qed
  have l1: "length ?df1 = length rows_t" by simp
  have pos: "\<forall>i \<in> set (py_range W0 ?n). 0 \<le> i"
    using w1 by (auto simp: py_range_def)
  from loop have loop1: "for_loop (py_range W0 ?n) ?body ?df1 = Inr out"
    unfolding fold1 .
  from slide_loop [OF loop1 pos]
  have len: "length out = length ?df1"
    and each: "\<forall>k < length ?df1.
        (int k \<in> set (py_range W0 ?n) \<longrightarrow>
           (\<exists>st. window_stats around (map (values_of ix jx)
                 (loc_slice (map base ?df1) (max 0 (int k - W + 1)) (int k)))
                   = Inr st \<and> out ! k = set_stats st (?df1 ! k))) \<and>
        (int k \<notin> set (py_range W0 ?n) \<longrightarrow> out ! k = ?df1 ! k)"
    by blast+
  have early: "out ! k = set_stats st0 (nan_row ?c (rows_t ! k))"
    if k: "k < length rows_t" and lt: "int k < W0" for k
  proof -
    have km: "k < ?m" using k lt by simp
    have "int k \<notin> set (py_range W0 ?n)" using lt by (auto simp: py_range_def)
    with each k l1 have "out ! k = ?df1 ! k" by metis
    also have "\<dots> = set_stats st0 (nan_row ?c (rows_t ! k))"
      using km k by (simp add: nth_append)
    finally show ?thesis .
  qed
  have late: "\<exists>st. window_stats around (map (values_of ix jx)
                  (loc_slice rows_t (max 0 (int k - W + 1)) (int k))) = Inr st \<and>
           out ! k = set_stats st (nan_row ?c (rows_t ! k))"
    if k: "k < length rows_t" and ge: "W0 \<le> int k" for k
  proof -
    have km: "\<not> k < ?m" using ge by simp
    have mem: "int k \<in> set (py_range W0 ?n)" using ge k by (auto simp: py_range_def)
    have d: "?df1 ! k = nan_row ?c (rows_t ! k)"
      using km k by (simp add: nth_append min_def)
    from each k l1 mem obtain st where
      "window_stats around (map (values_of ix jx)
          (loc_slice (map base ?df1) (max 0 (int k - W + 1)) (int k))) = Inr st"
      "out ! k = set_stats st (?df1 ! k)"
      by metis
    then show ?thesis unfolding b1 d by blast
  qed
  have A: "\<exists>st0. window_stats around (map (values_of ix jx)
                (take (nat (min W0 (int (length rows_t)))) rows_t)) = Inr st0 \<and>
        (\<forall>k < length rows_t. int k < W0 \<longrightarrow>
           out ! k = set_stats st0 (nan_row (length ix + length jx) (rows_t ! k)))"
    using st0 early by blast
  have B: "\<forall>k < length rows_t. W0 \<le> int k \<longrightarrow>
        (\<exists>st. window_stats around (map (values_of ix jx)
                  (loc_slice rows_t (max 0 (int k - W + 1)) (int k))) = Inr st \<and>
           out ! k = set_stats st (nan_row (length ix + length jx) (rows_t ! k)))"
    using late by blast
  have C: "length out = length rows_t" using len l1 by simp
  from w1 ne C A B show ?thesis
    by (intro conjI)
qed

lemma process_tag_unfold:
  "process_tag around W0 W ix jx rows_t =
      (case window_stats around (map (values_of ix jx)
              (take (nat (min W0 (int (length rows_t)))) rows_t)) of
         Inl e \<Rightarrow> Inl e
       | Inr st \<Rightarrow> for_loop (py_range W0 (int (length rows_t)))
           (\<lambda>i df. case window_stats around (tag_window ix jx df (max 0 (i - W + 1)) i) of
                 Inl e \<Rightarrow> Inl e
               | Inr st' \<Rightarrow> Inr (df[nat i := set_stats st' (df ! nat i)]))
           (fold (\<lambda>i df. df[nat i := set_stats st (df ! nat i)])
              (py_range 0 (min W0 (int (length rows_t))))
              (map (nan_row (length ix + length jx)) rows_t)))"
  unfolding process_tag_def Let_def first_window by (simp add: comp_def cong: sum.case_cong)

lemma process_tag_total:
  assumes w0: "1 \<le> W0" and w: "1 \<le> W" and ne: "rows_t \<noteq> []"
  shows "\<exists>out. process_tag around W0 W ix jx rows_t = Inr out"
proof -
  let ?c = "length ix + length jx"
  let ?df0 = "map (nan_row ?c) rows_t"
  let ?n = "int (length rows_t)"
  let ?m = "nat (min W0 ?n)"
  have "take ?m rows_t \<noteq> []" using w0 ne by (auto simp: min_def)
  then obtain st0 where
    st0: "window_stats around (map (values_of ix jx) (take ?m rows_t)) = Inr st0"
    by (simp add: window_stats_def)
  let ?df1 = "fold (\<lambda>i df. df[nat i := set_stats st0 (df ! nat i)]) (py_range 0 (min W0 ?n)) ?df0"
  have mle: "?m \<le> length ?df0" by simp
  have fold1: "?df1 = map (set_stats st0) (take ?m ?df0) @ drop ?m ?df0"
    using warm_fold [OF mle, of "set_stats st0"] by (simp add: py_range_nat)
  have b1: "map base ?df1 = rows_t"
  proof -
    have "map base ?df1 = take ?m (map base ?df0) @ drop ?m (map base ?df0)"
      unfolding fold1 by (simp add: take_map drop_map comp_def)
    then show ?thesis by (simp add: comp_def)
  qed
  have "\<forall>i \<in> set (py_range W0 ?n). \<exists>st. window_stats around (map (values_of ix jx)
      (loc_slice (map base ?df1) (max 0 (i - W + 1)) i)) = Inr st"
  proof
    fix i assume "i \<in> set (py_range W0 ?n)"
    then have i: "W0 \<le> i" "i < ?n" by (auto simp: py_range_def)
    have "loc_slice rows_t (max 0 (i - W + 1)) i \<noteq> []"
      using i w0 w by (intro loc_slice_nonempty) auto
    then show "\<exists>st. window_stats around (map (values_of ix jx)
      (loc_slice (map base ?df1) (max 0 (i - W + 1)) i)) = Inr st"
      unfolding b1 by (simp add: window_stats_def)
  qed
  from slide_loop_total [OF this] st0 show ?thesis
    unfolding process_tag_unfold by simp
qed

lemma process_tag_base:
  assumes "process_tag around W0 W ix jx rows_t = Inr out"
  shows "map base out = rows_t"
proof (rule nth_equalityI)
  from process_tag_Inr [OF assms] show "length (map base out) = length rows_t" by simp
next
  fix k assume "k < length (map base out)"
  then have k: "k < length rows_t" "k < length out"
    using process_tag_Inr [OF assms] by simp_all
  have "base (out ! k) = rows_t ! k"
  proof (cases "int k < W0")
    case True
    with process_tag_Inr [OF assms] k obtain st0 where
      "out ! k = set_stats st0 (nan_row (length ix + length jx) (rows_t ! k))"
      by blast
    then show ?thesis by simp
  next
    case False
    then have "W0 \<le> int k" by simp
    with process_tag_Inr [OF assms] k obtain st where
      "out ! k = set_stats st (nan_row (length ix + length jx) (rows_t ! k))"
      by blast
    then show ?thesis by simp
  qed
  then show "map base out ! k = rows_t ! k" using k by simp
qed

lemma filter_concat_other:
  assumes "length vs = length tags" and "\<forall>i < length tags. \<forall>r \<in> set (vs ! i). f r = tags ! i"
    and "t \<notin> set tags"
  shows "filter (\<lambda>r. f r = t) (concat vs) = []"
proof -
  have "f r \<noteq> t" if "r \<in> set (concat vs)" for r
  proof -
    from that obtain v where "v \<in> set vs" "r \<in> set v" by auto
    then obtain i where "i < length vs" "r \<in> set (vs ! i)"
      by (metis in_set_conv_nth)
    with assms have "f r = tags ! i" "tags ! i \<in> set tags" by auto
    with assms(3) show ?thesis by auto
  qed
  then show ?thesis by (auto simp: filter_empty_conv)
qed

lemma filter_concat_tag:
  assumes "length vs = length tags" and "distinct tags"
    and "\<forall>i < length tags. \<forall>r \<in> set (vs ! i). f r = tags ! i" and "i < length tags"
  shows "filter (\<lambda>r. f r = tags ! i) (concat vs) = vs ! i"
  using assms
proof (induction vs tags arbitrary: i rule: list_induct2)
  case Nil
  then show ?case by simp
next
  case (Cons v vs u tags)
  have rest: "\<forall>j < length tags. \<forall>r \<in> set (vs ! j). f r = tags ! j"
    using Cons.prems(2) by fastforce
  have hd: "\<forall>r \<in> set v. f r = u"
    using Cons.prems(2) by fastforce
  show ?case
  proof (cases i)
    case 0
    have "u \<notin> set tags" using Cons.prems(1) by simp
    from filter_concat_other [OF Cons.hyps rest this]
    have "filter (\<lambda>r. f r = u) (concat vs) = []" .
    moreover have "filter (\<lambda>r. f r = u) v = v" using hd by (simp add: filter_id_conv)
    ultimately show ?thesis using 0 by simp
  next
    case (Suc j)
    then have j: "j < length tags" using Cons.prems(3) by simp
    have "tags ! j \<noteq> u" using Cons.prems(1) j by auto
    then have "filter (\<lambda>r. f r = tags ! j) v = []"
      using hd by (auto simp: filter_empty_conv)
    moreover have "filter (\<lambda>r. f r = tags ! j) (concat vs) = vs ! j"
      using Cons.IH [OF _ rest j] Cons.prems(1) by simp
    ultimately show ?thesis using Suc by simp
  qed
qed

lemma length_resolve: "resolve names labels = Inr ix \<Longrightarrow> length ix = length labels"
  unfolding resolve_def collect_Inr_iff by (metis length_map)

lemma features_of_tag_Inr:
  assumes "features_of_tag around dbase W0 W tag = Inr out"
  shows "\<exists>ix jx. length ix = length (rssi_names dbase) \<and> length jx = length (rssi_names dbase) \<and>
           base_values dbase = values_of ix jx \<and>
           process_tag around W0 W ix jx (filter (\<lambda>r. TagID r = tag) (rows dbase)) = Inr out"
proof -
  let ?L = "map (\<lambda>i. str_nat (i + 1)) [0..<length (rssi_names dbase)]"
  from assms obtain ix jx where ix: "resolve (rssi_names dbase) ?L = Inr ix"
    and jx: "resolve (rc_names dbase) ?L = Inr jx"
    and pt: "process_tag around W0 W ix jx (filter (\<lambda>r. TagID r = tag) (rows dbase)) = Inr out"
    unfolding features_of_tag_def Let_def by (auto split: sum.splits)
  have "base_values dbase r = values_of ix jx r" for r
    unfolding base_values_def ix jx by simp
  then have "base_values dbase = values_of ix jx"
    by (rule ext)
  moreover have "length ix = length (rssi_names dbase)" "length jx = length (rssi_names dbase)"
    using length_resolve [OF ix] length_resolve [OF jx] by simp_all
  ultimately show ?thesis using pt by blast
qed

lemma swf_Inr:
  assumes "sliding_window_features around dbase W0 W = Inr out"
  shows "\<exists>vs. length vs = length (np_unique (map TagID (rows dbase))) \<and>
     (\<forall>i < length (np_unique (map TagID (rows dbase))).
         features_of_tag around dbase W0 W (np_unique (map TagID (rows dbase)) ! i) = Inr (vs ! i)) \<and>
     out = sort_key (\<lambda>r. (read (base r), TagID (base r))) (concat vs)"
proof -
  let ?tags = "np_unique (map TagID (rows dbase))"
  from assms obtain nd where
    loop: "for_loop ?tags (\<lambda>tag newdbase. case features_of_tag around dbase W0 W tag of
              Inl e \<Rightarrow> Inl e | Inr df_tag \<Rightarrow> Inr (newdbase @ df_tag)) [] = Inr nd"
    and out: "out = sort_key (\<lambda>r. (read (base r), TagID (base r))) nd"
    unfolding sliding_window_features_def by (auto split: sum.splits)
  from for_loop_collect_nth [OF loop] obtain vs where
    "length vs = length ?tags" "\<forall>i < length ?tags. features_of_tag around dbase W0 W (?tags ! i) = Inr (vs ! i)"
    "nd = concat (map (\<lambda>v. v) vs)"
    by blast
  with out show ?thesis by auto
qed



lemma swf_count:
  assumes swf: "sliding_window_features around dbase W0 W = Inr out"
  shows "length (filter (\<lambda>r. TagID (base r) = t) out) = length (filter (\<lambda>r. TagID r = t) (rows dbase))"
proof -
  let ?tags = "np_unique (map TagID (rows dbase))"
  let ?K = "\<lambda>r. (read (base r), TagID (base r))"
  from swf_Inr [OF swf] obtain vs where len: "length vs = length ?tags"
    and each: "\<forall>i < length ?tags. features_of_tag around dbase W0 W (?tags ! i) = Inr (vs ! i)"
    and out: "out = sort_key ?K (concat vs)"
    by blast
  have bases: "map base (vs ! i) = filter (\<lambda>r. TagID r = ?tags ! i) (rows dbase)"
    if "i < length ?tags" for i
  proof -
    from each that have "features_of_tag around dbase W0 W (?tags ! i) = Inr (vs ! i)" by simp
    from features_of_tag_Inr [OF this] obtain ix jx where
      "process_tag around W0 W ix jx (filter (\<lambda>r. TagID r = ?tags ! i) (rows dbase)) = Inr (vs ! i)"
      by blast
    then show ?thesis by (rule process_tag_base)
  qed
  have tagof: "\<forall>i < length ?tags. \<forall>r \<in> set (vs ! i). TagID (base r) = ?tags ! i"
  proof (intro allI impI ballI)
    fix i r assume i: "i < length ?tags" and r: "r \<in> set (vs ! i)"
    then have "base r \<in> set (map base (vs ! i))" by simp
    then show "TagID (base r) = ?tags ! i" unfolding bases [OF i] by simp
  qed
  have lf: "length (filter (\<lambda>r. TagID (base r) = t) out) =
      length (filter (\<lambda>r. TagID (base r) = t) (concat vs))"
    unfolding out filter_sort by simp
  show ?thesis
  proof (cases "t \<in> set ?tags")
    case True
    then obtain i where i: "i < length ?tags" "?tags ! i = t"
      by (auto simp: in_set_conv_nth)
    have "filter (\<lambda>r. TagID (base r) = ?tags ! i) (concat vs) = vs ! i"
      using filter_concat_tag [OF len distinct_np_unique tagof i(1)] .
    then have "length (filter (\<lambda>r. TagID (base r) = t) (concat vs)) = length (map base (vs ! i))"
      using i(2) by simp
    then show ?thesis unfolding lf bases [OF i(1)] i(2) .
  next
    case False
    from filter_concat_other [OF len tagof False]
    have "filter (\<lambda>r. TagID (base r) = t) (concat vs) = []" .
    moreover have "filter (\<lambda>r. TagID r = t) (rows dbase) = []"
      using False by (auto simp: set_np_unique filter_empty_conv)
    ultimately show ?thesis unfolding lf by simp
  qed
qed

lemma collect_total:
  "\<forall>x \<in> set xs. \<exists>v. f x = Inr v \<Longrightarrow> \<exists>vs. collect (map f xs) = Inr vs"
proof (induction xs)
  case Nil
  then show ?case by simp
next
  case (Cons x xs)
  then obtain v vs where "f x = Inr v" "collect (map f xs) = Inr vs" by auto
  then show ?case by simp
qed

lemma resolve_total:
  assumes "set labels \<subseteq> set names"
  shows "\<exists>ix. resolve names labels = Inr ix"
  unfolding resolve_def
proof (rule collect_total, rule ballI)
  fix l assume "l \<in> set labels"
  with assms have "l \<in> set names" by auto
  from col_index_Some [OF this] obtain j where "col_index names l = Some j" by blast
  then show "\<exists>v. (case col_index names l of None \<Rightarrow> Inl KeyError | Some i \<Rightarrow> Inr i) = Inr v"
    by simp
qed

lemma swf_total:
  assumes w0: "1 \<le> W0" and w: "1 \<le> W"
    and labels: "\<forall>i < length (rssi_names dbase).
        str_nat (i + 1) \<in> set (rssi_names dbase) \<and> str_nat (i + 1) \<in> set (rc_names dbase)"
  shows "\<exists>out. sliding_window_features around dbase W0 W = Inr out"
proof -
  let ?L = "map (\<lambda>i. str_nat (i + 1)) [0..<length (rssi_names dbase)]"
  let ?tags = "np_unique (map TagID (rows dbase))"
  have "set ?L \<subseteq> set (rssi_names dbase)" "set ?L \<subseteq> set (rc_names dbase)"
    using labels by auto
  then obtain ix jx where ix: "resolve (rssi_names dbase) ?L = Inr ix"
    and jx: "resolve (rc_names dbase) ?L = Inr jx"
    using resolve_total by blast
  have "\<forall>tag \<in> set ?tags. \<exists>v. features_of_tag around dbase W0 W tag = Inr v"
  proof
    fix tag assume "tag \<in> set ?tags"
    then have "filter (\<lambda>r. TagID r = tag) (rows dbase) \<noteq> []"
      by (auto simp: set_np_unique filter_empty_conv)
    from process_tag_total [OF w0 w this, of around ix jx]
    show "\<exists>v. features_of_tag around dbase W0 W tag = Inr v"
      unfolding features_of_tag_def Let_def ix jx by simp
  qed
  from collect_total [OF this] obtain vs where
    "collect (map (features_of_tag around dbase W0 W) ?tags) = Inr vs" by blast
  then show ?thesis
    unfolding sliding_window_features_def for_loop_append by simp
qed

text \<open>
  Claim C5. Whenever \<open>sliding_window_features\<close> returns, its result has, for every tag, as
  many rows as the input frame has for that tag; and it does return for positive window
  sizes on a frame whose antenna columns are named 1 to k.
\<close>

theorem extractor_row_count:
  "(sliding_window_features around dbase W0 W = Inr out \<longrightarrow>
      (\<forall>t. length (filter (\<lambda>r. TagID (base r) = t) out) =
           length (filter (\<lambda>r. TagID r = t) (rows dbase)))) \<and>
   (1 \<le> W0 \<and> 1 \<le> W \<and>
    (\<forall>i < length (rssi_names dbase).
        str_nat (i + 1) \<in> set (rssi_names dbase) \<and> str_nat (i + 1) \<in> set (rc_names dbase))
      \<longrightarrow> (\<exists>out'. sliding_window_features around dbase W0 W = Inr out'))"
  using swf_count [of around dbase W0 W out] swf_total [of W0 W dbase around] by blast

text \<open>
  Claim C6. Whenever \<open>sliding_window_features\<close> returns, the rows of its result are sorted
  by timestamp and then by tag id; and it does return for positive window sizes on a frame
  whose antenna columns are named 1 to k.
\<close>

theorem extractor_output_sorted:
  "(sliding_window_features around dbase W0 W = Inr out \<longrightarrow>
      sorted (map (\<lambda>r. (read (base r), TagID (base r))) out)) \<and>
   (1 \<le> W0 \<and> 1 \<le> W \<and>
    (\<forall>i < length (rssi_names dbase).
        str_nat (i + 1) \<in> set (rssi_names dbase) \<and> str_nat (i + 1) \<in> set (rc_names dbase))
      \<longrightarrow> (\<exists>out'. sliding_window_features around dbase W0 W = Inr out'))"
  using sorted_swf [of around dbase W0 W out] swf_total [of W0 W dbase around] by blast

lemma around4_int [simp]: "around4 (of_int z) = of_int z"
  by (simp add: around4_def rint_def Let_def)

lemma around4_numeral [simp]: "around4 (numeral n) = numeral n" "around4 0 = 0" "around4 1 = 1"
  using around4_int [of "numeral n"] around4_int [of 0] around4_int [of 1] by simp_all

lemma example_features:
  "sliding_window_features around4 example_frame 2 2 =
     Inr example_output"
  by (simp add: example_frame_def example_output_def sliding_window_features_def features_of_tag_def np_unique_def
      resolve_def process_tag_def tag_window_def values_of_def loc_slice_def py_range_def
      nan_row_def set_stats_def window_stats_def columns_def col_stat_def np_mean_def np_min_def
      np_max_def np_std_def str_nat.simps Let_def upto.simps)







theorem extractor_row_count_witness:
  "(1::int) \<le> 2 \<and> str_nat (0 + 1) \<in> set (rssi_names example_frame) \<and>
   str_nat (0 + 1) \<in> set (rc_names example_frame) \<and>
   sliding_window_features around4 example_frame 2 2 = Inr example_output \<and>
   length (filter (\<lambda>r. TagID (base r) = ''T1'') example_output) = 3 \<and>
   length (filter (\<lambda>r. TagID r = ''T1'') (rows example_frame)) = 3"
  using extractor_row_count [of around4 example_frame 2 2 example_output] example_features
  by (simp add: example_frame_def example_output_def str_nat.simps)

theorem extractor_output_sorted_witness:
  "(1::int) \<le> 2 \<and> str_nat (0 + 1) \<in> set (rssi_names example_frame) \<and>
   str_nat (0 + 1) \<in> set (rc_names example_frame) \<and>
   sliding_window_features around4 example_frame 2 2 = Inr example_output \<and>
   map (\<lambda>r. (read (base r), TagID (base r))) example_output =
     [(0, ''T1''), (1, ''T1''), (1, ''T2''), (2, ''T1'')] \<and>
   sorted [(0::int, ''T1''), (1, ''T1''), (1, ''T2''), (2, ''T1'')]"
  using extractor_output_sorted [of around4 example_frame 2 2 example_output] example_features
  by (simp add: example_frame_def example_output_def str_nat.simps)


section \<open>The claims on the window statistics\<close>














end
